theory Spec2Isabelle
  imports Main
begin

section \<open>Python values, errors and dictionaries\<close>

text \<open>
  The program works on parsed JSON: \<^verbatim>\<open>None\<close>, booleans, integers, strings, lists and
  string-keyed dictionaries. Floating-point numbers are left out of the value type.
  A \<^typ>\<open>char\<close> stands for the code point of the same number, so a \<^typ>\<open>string\<close>
  is a Python \<^verbatim>\<open>str\<close> whose code points are below 256.
  A dictionary is an association list in insertion order, as Python keeps it.
\<close>

datatype pyval =
    VNone
  | VBool bool
  | VInt int
  | VStr string
  | VList "pyval list"
  | VDict "(string \<times> pyval) list"

type_synonym pydict = "(string \<times> pyval) list"

datatype error =
    KeyError
  | ValueError
  | TypeError
  | AttributeError
  | IndexError
  | HTTPError
  | ConnectionError
  | JSONDecodeError
  | OSError

text \<open>Sequencing of a computation that may raise: the first exception wins.\<close>

definition ebind :: "error + 'a \<Rightarrow> ('a \<Rightarrow> error + 'b) \<Rightarrow> error + 'b" where
  "ebind r f = (case r of Inl e \<Rightarrow> Inl e | Inr x \<Rightarrow> f x)"

text \<open>Python truthiness, the test behind \<^verbatim>\<open>if not x\<close>.\<close>

fun truthy :: "pyval \<Rightarrow> bool" where
  "truthy VNone = False"
| "truthy (VBool b) = b"
| "truthy (VInt i) = (i \<noteq> 0)"
| "truthy (VStr s) = (s \<noteq> [])"
| "truthy (VList xs) = (xs \<noteq> [])"
| "truthy (VDict kvs) = (kvs \<noteq> [])"

text \<open>\<^verbatim>\<open>d.get(k)\<close> and \<^verbatim>\<open>k in d\<close> (\<open>dict_get d k \<noteq> None\<close>).\<close>

definition dict_get :: "pydict \<Rightarrow> string \<Rightarrow> pyval option" where
  "dict_get d k = map_of d k"

text \<open>\<^verbatim>\<open>d[k]\<close>: a missing key raises \<^verbatim>\<open>KeyError\<close>.\<close>

definition dict_getitem :: "pydict \<Rightarrow> string \<Rightarrow> error + pyval" where
  "dict_getitem d k = (case dict_get d k of None \<Rightarrow> Inl KeyError | Some v \<Rightarrow> Inr v)"

text \<open>\<^verbatim>\<open>d[k] = v\<close>: an existing key keeps its position, a new key goes last.\<close>

primrec dict_set :: "pydict \<Rightarrow> string \<Rightarrow> pyval \<Rightarrow> pydict" where
  "dict_set [] k v = [(k, v)]"
| "dict_set (p # ps) k v = (if fst p = k then (k, v) # ps else p # dict_set ps k v)"

text \<open>\<^verbatim>\<open>del d[k]\<close>, used by the program only after \<^verbatim>\<open>k in d\<close>.\<close>

definition dict_del :: "pydict \<Rightarrow> string \<Rightarrow> pydict" where
  "dict_del d k = filter (\<lambda>p. fst p \<noteq> k) d"

section \<open>Built-in string operations\<close>

text \<open>\<^verbatim>\<open>s.replace(old, new, 1)\<close>: only the leftmost occurrence is replaced.\<close>

fun replace_first :: "string \<Rightarrow> string \<Rightarrow> string \<Rightarrow> string" where
  "replace_first old new [] = (if old = [] then new else [])"
| "replace_first old new (c # cs) =
     (if take (length old) (c # cs) = old then new @ drop (length old) (c # cs)
      else c # replace_first old new cs)"

text \<open>\<^verbatim>\<open>pat in s\<close> on strings: \<open>pat\<close> occurs in \<open>s\<close>.\<close>

fun str_contains :: "string \<Rightarrow> string \<Rightarrow> bool" where
  "str_contains pat [] = (pat = [])"
| "str_contains pat (c # cs) = (take (length pat) (c # cs) = pat \<or> str_contains pat cs)"

text \<open>
  \<^verbatim>\<open>s.split(sep)\<close> with a non-empty separator: the text is cut at every occurrence found
  scanning from the left; \<open>acc\<close> holds the current piece reversed.
\<close>

function split_sep :: "string \<Rightarrow> string \<Rightarrow> string \<Rightarrow> string list" where
  "split_sep sep acc [] = [rev acc]"
| "split_sep sep acc (c # cs) =
     (if sep \<noteq> [] \<and> take (length sep) (c # cs) = sep
      then rev acc # split_sep sep [] (drop (length sep) (c # cs))
      else split_sep sep (c # acc) cs)"
  by pat_completeness auto
termination
  by (relation "measure (\<lambda>(sep, acc, s). length s)") auto

text \<open>Whitespace as \<^verbatim>\<open>str.split()\<close> sees it, among the code points below 256.\<close>

definition is_unicode_space :: "char \<Rightarrow> bool" where
  "is_unicode_space c =
     (let n = (of_char c :: nat)
      in (9 \<le> n \<and> n \<le> 13) \<or> (28 \<le> n \<and> n \<le> 32) \<or> n = 133 \<or> n = 160)"

text \<open>\<^verbatim>\<open>s.split()\<close> without a separator: runs of whitespace separate, no empty pieces.\<close>

fun split_ws :: "string \<Rightarrow> string \<Rightarrow> string list" where
  "split_ws acc [] = (if acc = [] then [] else [rev acc])"
| "split_ws acc (c # cs) =
     (if is_unicode_space c
      then (if acc = [] then split_ws [] cs else rev acc # split_ws [] cs)
      else split_ws (c # acc) cs)"

definition py_split :: "string \<Rightarrow> string option \<Rightarrow> error + string list" where
  "py_split s sep =
     (case sep of
        None \<Rightarrow> Inr (split_ws [] s)
      | Some p \<Rightarrow> if p = [] then Inl ValueError else Inr (split_sep p [] s))"

subsection \<open>\<^verbatim>\<open>int(...)\<close>\<close>

text \<open>
  \<^verbatim>\<open>int(s)\<close> on a string: surrounding whitespace is dropped, one sign is allowed, and the
  rest must be decimal digits, where single underscores may stand between digits.
  The number of digits is not bounded, as in Python 3.9.
\<close>

definition is_int_space :: "char \<Rightarrow> bool" where
  "is_int_space c =
     (let n = (of_char c :: nat)
      in (9 \<le> n \<and> n \<le> 13) \<or> n = 32 \<or> n = 133 \<or> n = 160)"

definition is_digit :: "char \<Rightarrow> bool" where
  "is_digit c = (let n = (of_char c :: nat) in 48 \<le> n \<and> n \<le> 57)"

definition digit_val :: "char \<Rightarrow> int" where
  "digit_val c = int (of_char c) - 48"

definition strip_int :: "string \<Rightarrow> string" where
  "strip_int s = rev (dropWhile is_int_space (rev (dropWhile is_int_space s)))"

definition digits_to_int :: "string \<Rightarrow> int option" where
  "digits_to_int body =
     (let groups = split_sep ''_'' [] body
      in if list_all (\<lambda>g. g \<noteq> [] \<and> list_all is_digit g) groups
         then Some (foldl (\<lambda>a c. 10 * a + digit_val c) 0 (concat groups))
         else None)"

definition int_of_str :: "string \<Rightarrow> int option" where
  "int_of_str s =
     (case strip_int s of
        [] \<Rightarrow> None
      | c # cs \<Rightarrow>
          if c = CHR ''+'' then digits_to_int cs
          else if c = CHR ''-'' then map_option uminus (digits_to_int cs)
          else digits_to_int (c # cs))"

text \<open>\<^verbatim>\<open>int(v)\<close> as a callable: the integer, or the exception raised.\<close>

fun py_int :: "pyval \<Rightarrow> error + pyval" where
  "py_int VNone = Inl TypeError"
| "py_int (VBool b) = Inr (VInt (if b then 1 else 0))"
| "py_int (VInt i) = Inr (VInt i)"
| "py_int (VStr s) = (case int_of_str s of None \<Rightarrow> Inl ValueError | Some i \<Rightarrow> Inr (VInt i))"
| "py_int (VList xs) = Inl TypeError"
| "py_int (VDict kvs) = Inl TypeError"

subsection \<open>\<^verbatim>\<open>str(...)\<close>\<close>

definition digit_char :: "nat \<Rightarrow> char" where
  "digit_char n = char_of (48 + n)"

function show_nat :: "nat \<Rightarrow> string" where
  "show_nat n = (if n < 10 then [digit_char n] else show_nat (n div 10) @ [digit_char (n mod 10)])"
  by pat_completeness auto
termination
  by (relation "measure (\<lambda>n. n)") auto

definition show_int :: "int \<Rightarrow> string" where
  "show_int i = (if i < 0 then CHR ''-'' # show_nat (nat (- i)) else show_nat (nat i))"

definition hex_char :: "nat \<Rightarrow> char" where
  "hex_char n = (if n < 10 then char_of (48 + n) else char_of (87 + n))"

text \<open>One character inside the \<^verbatim>\<open>repr\<close> of a string delimited by \<open>q\<close>.\<close>

definition repr_char :: "char \<Rightarrow> char \<Rightarrow> string" where
  "repr_char q c =
     (let n = (of_char c :: nat) in
      if c = q \<or> n = 92 then [CHR 0x5C, c]
      else if n = 9 then [CHR 0x5C, CHR ''t'']
      else if n = 10 then [CHR 0x5C, CHR ''n'']
      else if n = 13 then [CHR 0x5C, CHR ''r'']
      else if n < 32 \<or> (127 \<le> n \<and> n \<le> 160) \<or> n = 173
        then [CHR 0x5C, CHR ''x'', hex_char (n div 16), hex_char (n mod 16)]
      else [c])"

definition repr_str :: "string \<Rightarrow> string" where
  "repr_str s =
     (let q = (if CHR 0x27 \<in> set s \<and> CHR 0x22 \<notin> set s then CHR 0x22 else CHR 0x27)
      in q # concat (map (repr_char q) s) @ [q])"

fun join_sep :: "string \<Rightarrow> string list \<Rightarrow> string" where
  "join_sep sep [] = []"
| "join_sep sep [x] = x"
| "join_sep sep (x # y # ys) = x @ sep @ join_sep sep (y # ys)"

fun py_repr :: "pyval \<Rightarrow> string" where
  "py_repr VNone = ''None''"
| "py_repr (VBool b) = (if b then ''True'' else ''False'')"
| "py_repr (VInt i) = show_int i"
| "py_repr (VStr s) = repr_str s"
| "py_repr (VList xs) = ''['' @ join_sep '', '' (map py_repr xs) @ '']''"
| "py_repr (VDict kvs) =
     ''{'' @ join_sep '', '' (map (\<lambda>p. repr_str (fst p) @ '': '' @ py_repr (snd p)) kvs) @ ''}''"

text \<open>\<^verbatim>\<open>str(v)\<close> as a callable: a string is returned as it is, anything else printed.\<close>

definition py_str :: "pyval \<Rightarrow> error + pyval" where
  "py_str v = Inr (VStr (case v of VStr s \<Rightarrow> s | _ \<Rightarrow> py_repr v))"

section \<open>Mapper credits (\<^verbatim>\<open>structs.py\<close>)\<close>

abbreviation NAME_KEY :: string where "NAME_KEY \<equiv> ''name''"
abbreviation ID64_KEY :: string where "ID64_KEY \<equiv> ''id64''"

text \<open>
  \<^verbatim>\<open>Mapper.__fix_val(s, type)\<close>: the conversion \<open>ty\<close> is an argument, as in the source;
  \<^verbatim>\<open>None\<close> is returned for a falsy value and for the text \<^verbatim>\<open>null\<close>.
\<close>

definition fix_val :: "pyval \<Rightarrow> (pyval \<Rightarrow> error + pyval) \<Rightarrow> error + pyval" where
  "fix_val s ty = (if truthy s \<and> s \<noteq> VStr ''null'' then ty s else Inr VNone)"

text \<open>\<^verbatim>\<open>Mapper(name, id64)\<close>: a dictionary with the two keys, set in this order.\<close>

definition Mapper :: "pyval \<Rightarrow> pyval \<Rightarrow> error + pyval" where
  "Mapper name id64 =
     ebind (fix_val name py_str) (\<lambda>n.
     ebind (fix_val id64 py_int) (\<lambda>i.
     Inr (VDict (dict_set (dict_set [] NAME_KEY n) ID64_KEY i))))"

section \<open>The fetcher (\<^verbatim>\<open>update.py\<close>)\<close>

text \<open>
  What the program reads of a \<^verbatim>\<open>requests.Response\<close>: the status code and what
  \<^verbatim>\<open>response.json()\<close> gives, the parsed body or the parse error.
\<close>

record response =
  status_code :: int
  json :: "error + pyval"

text \<open>\<^verbatim>\<open>Response.raise_for_status()\<close> of the requests library raises for 4xx and 5xx.\<close>

definition raise_for_status :: "response \<Rightarrow> error option" where
  "raise_for_status r =
     (if 400 \<le> status_code r \<and> status_code r < 600 then Some HTTPError else None)"

text \<open>
  The network is a function \<open>http_get\<close> from the URL to the response or to the exception
  of \<^verbatim>\<open>requests.get\<close>. The state passed along is the list of URLs requested so far.
\<close>

definition get_url_response ::
  "(string \<Rightarrow> error + response) \<Rightarrow> string option \<Rightarrow> string list
     \<Rightarrow> (error + response option) \<times> string list" where
  "get_url_response http_get url reqs =
     (case url of
        None \<Rightarrow> (Inr None, reqs)
      | Some u \<Rightarrow>
          if u = [] then (Inr None, reqs)
          else (case http_get u of
                  Inl e \<Rightarrow> (Inl e, reqs @ [u])
                | Inr r \<Rightarrow>
                    (case raise_for_status r of
                       Some e \<Rightarrow> (Inl e, reqs @ [u])
                     | None \<Rightarrow>
                         if status_code r = 204 then (Inr None, reqs @ [u])
                         else (Inr (Some r), reqs @ [u]))))"

text \<open>The result is a Python value; \<^verbatim>\<open>None\<close> is \<^term>\<open>VNone\<close>.\<close>

definition get_url_json ::
  "(string \<Rightarrow> error + response) \<Rightarrow> string option \<Rightarrow> string list
     \<Rightarrow> (error + pyval) \<times> string list" where
  "get_url_json http_get url reqs =
     (case get_url_response http_get url reqs of
        (Inl e, reqs') \<Rightarrow> (Inl e, reqs')
      | (Inr None, reqs') \<Rightarrow> (Inr VNone, reqs')
      | (Inr (Some r), reqs') \<Rightarrow> (json r, reqs'))"

section \<open>The normalizer (\<^verbatim>\<open>update.py\<close>)\<close>

abbreviation MAPPER_NAME_KEY :: string where "MAPPER_NAME_KEY \<equiv> ''mapper_name''"
abbreviation MAPPER_ID64_KEY :: string where "MAPPER_ID64_KEY \<equiv> ''mapper_steamid64''"
abbreviation MAPPERS_KEY :: string where "MAPPERS_KEY \<equiv> ''mappers''"
abbreviation STR_SEPARATOR :: string where "STR_SEPARATOR \<equiv> '', ''"

definition URL_KEYS :: "string list" where
  "URL_KEYS = [''workshop_url'']"

definition INT_KEYS :: "string list" where
  "INT_KEYS = [''id'', ''difficulty'']"

text \<open>
  \<^verbatim>\<open>_str_to_list(val, sep)\<close>: \<^verbatim>\<open>None\<close> for a falsy value; a truthy value that is not a
  string has no \<^verbatim>\<open>split\<close>.
\<close>

definition str_to_list :: "pyval \<Rightarrow> string option \<Rightarrow> error + pyval list option" where
  "str_to_list val sep =
     (if \<not> truthy val then Inr None
      else (case val of
              VStr s \<Rightarrow> ebind (py_split s sep) (\<lambda>xs. Inr (Some (map VStr xs)))
            | _ \<Rightarrow> Inl AttributeError))"

text \<open>\<^verbatim>\<open>_norm_list(values, size)\<close> changes the list in place; the model returns it.\<close>

definition norm_list :: "pyval list option \<Rightarrow> int option \<Rightarrow> pyval list option" where
  "norm_list vals sz =
     (case vals of
        None \<Rightarrow> None
      | Some vs \<Rightarrow>
          (case sz of
             None \<Rightarrow> Some vs
           | Some n \<Rightarrow>
               if n < 0 then Some vs
               else if int (length vs) > n then Some (take (nat n) vs)
               else Some (vs @ replicate (nat (n - int (length vs))) VNone)))"

text \<open>\<^verbatim>\<open>len(xs)\<close> and \<^verbatim>\<open>xs[i]\<close> on a list that may be \<^verbatim>\<open>None\<close>.\<close>

definition py_len :: "pyval list option \<Rightarrow> error + int" where
  "py_len xs = (case xs of None \<Rightarrow> Inl TypeError | Some vs \<Rightarrow> Inr (int (length vs)))"

definition py_index :: "pyval list option \<Rightarrow> nat \<Rightarrow> error + pyval" where
  "py_index xs i =
     (case xs of
        None \<Rightarrow> Inl TypeError
      | Some vs \<Rightarrow> if i < length vs then Inr (vs ! i) else Inl IndexError)"

text \<open>The loop \<^verbatim>\<open>for i in range(length): mappers.append(Mapper(...))\<close>.\<close>

fun mappers_loop ::
  "pyval list option \<Rightarrow> pyval list option \<Rightarrow> nat list \<Rightarrow> pyval list \<Rightarrow> error + pyval list" where
  "mappers_loop mapper_names mapper_id64s [] mappers = Inr mappers"
| "mappers_loop mapper_names mapper_id64s (i # is) mappers =
     ebind (py_index mapper_names i) (\<lambda>n.
     ebind (py_index mapper_id64s i) (\<lambda>d.
     ebind (Mapper n d) (\<lambda>m.
     mappers_loop mapper_names mapper_id64s is (mappers @ [m]))))"

text \<open>
  \<^verbatim>\<open>_fix_mappers(map_json)\<close>: the record is changed in place; the model returns the
  record after the call, or the exception.
\<close>

definition fix_mappers :: "pydict option \<Rightarrow> error + pydict option" where
  "fix_mappers map_json =
     (case map_json of
        None \<Rightarrow> Inr None
      | Some m0 \<Rightarrow>
          if m0 = [] then Inr (Some m0)
          else
            ebind (case dict_get m0 MAPPER_NAME_KEY of
                     None \<Rightarrow> Inr (Some [], m0)
                   | Some v \<Rightarrow>
                       ebind (str_to_list v (Some STR_SEPARATOR)) (\<lambda>l.
                       Inr (l, dict_del m0 MAPPER_NAME_KEY)))
              (\<lambda>(mapper_names, m1).
            ebind (case dict_get m1 MAPPER_ID64_KEY of
                     None \<Rightarrow> Inr (Some [], m1)
                   | Some v \<Rightarrow>
                       ebind (str_to_list v (Some STR_SEPARATOR)) (\<lambda>l.
                       Inr (l, dict_del m1 MAPPER_ID64_KEY)))
              (\<lambda>(mapper_id64s, m2).
            ebind (py_len mapper_names) (\<lambda>len_names.
            ebind (py_len mapper_id64s) (\<lambda>len_id64s.
            (let n = max len_names len_id64s;
                 mapper_names' = norm_list mapper_names (Some n);
                 mapper_id64s' = norm_list mapper_id64s (Some n)
             in ebind (mappers_loop mapper_names' mapper_id64s' [0 ..< nat n] []) (\<lambda>mappers.
                Inr (Some (dict_set m2 MAPPERS_KEY (VList mappers))))))))))"

text \<open>\<^verbatim>\<open>url.replace(old, new, 1)\<close> on a value: only a string has \<^verbatim>\<open>replace\<close>.\<close>

definition py_replace :: "pyval \<Rightarrow> string \<Rightarrow> string \<Rightarrow> error + pyval" where
  "py_replace v old new =
     (case v of VStr s \<Rightarrow> Inr (VStr (replace_first old new s)) | _ \<Rightarrow> Inl AttributeError)"

fun fix_urls_loop :: "string list \<Rightarrow> pydict \<Rightarrow> error + pydict" where
  "fix_urls_loop [] m = Inr m"
| "fix_urls_loop (key # keys) m =
     ebind (dict_getitem m key) (\<lambda>url.
     ebind (py_replace url ''http://'' ''https://'') (\<lambda>u1.
     ebind (py_replace u1 ''/?'' ''?'') (\<lambda>u2.
     fix_urls_loop keys (dict_set m key u2))))"

definition fix_urls :: "pydict option \<Rightarrow> error + pydict option" where
  "fix_urls map_json =
     (case map_json of
        None \<Rightarrow> Inr None
      | Some m \<Rightarrow>
          if m = [] then Inr (Some m)
          else ebind (fix_urls_loop URL_KEYS m) (\<lambda>m'. Inr (Some m')))"

fun fix_types_loop :: "string list \<Rightarrow> pydict \<Rightarrow> error + pydict" where
  "fix_types_loop [] m = Inr m"
| "fix_types_loop (key # keys) m =
     (case dict_get m key of
        None \<Rightarrow> fix_types_loop keys m
      | Some val \<Rightarrow>
          if \<not> truthy val then fix_types_loop keys m
          else ebind (py_int val) (\<lambda>i. fix_types_loop keys (dict_set m key i)))"

definition fix_types :: "pydict option \<Rightarrow> error + pydict option" where
  "fix_types map_json =
     (case map_json of
        None \<Rightarrow> Inr None
      | Some m \<Rightarrow>
          if m = [] then Inr (Some m)
          else ebind (fix_types_loop INT_KEYS m) (\<lambda>m'. Inr (Some m')))"

fun fix_maps_loop :: "pydict option list \<Rightarrow> error + pydict option list" where
  "fix_maps_loop [] = Inr []"
| "fix_maps_loop (map_json # rest) =
     ebind (fix_mappers map_json) (\<lambda>m1.
     ebind (fix_urls m1) (\<lambda>m2.
     ebind (fix_types m2) (\<lambda>m3.
     ebind (fix_maps_loop rest) (\<lambda>rest'.
     Inr (m3 # rest')))))"

definition fix_maps :: "pydict option list option \<Rightarrow> error + pydict option list option" where
  "fix_maps maps_json =
     (case maps_json of
        None \<Rightarrow> Inr None
      | Some ms \<Rightarrow>
          if ms = [] then Inr (Some ms)
          else ebind (fix_maps_loop ms) (\<lambda>ms'. Inr (Some ms')))"

section \<open>The writer (\<^verbatim>\<open>update.py\<close>)\<close>








section \<open>Basic facts\<close>

lemma ebind_simps [simp]: "ebind (Inl e) f = Inl e" "ebind (Inr x) f = f x"
  by (simp_all add: ebind_def)

lemma dict_get_set: "dict_get (dict_set m k v) k' = (if k' = k then Some v else dict_get m k')"
  by (induction m) (auto simp: dict_get_def)

lemma dict_get_del: "dict_get (dict_del m k) k' = (if k' = k then None else dict_get m k')"
  by (induction m) (auto simp: dict_get_def dict_del_def)

lemma dict_set_twice: "dict_set (dict_set m k v) k w = dict_set m k w"
  by (induction m) auto

lemma dict_set_inject: "dict_set m k v = dict_set m k w \<longleftrightarrow> v = w"
  by (induction m) auto

lemma keys_dict_set: "dict_get m k \<noteq> None \<Longrightarrow> map fst (dict_set m k v) = map fst m"
  by (induction m) (auto simp: dict_get_def split: if_splits)

lemma int_of_str_5: "int_of_str ''5'' = Some 5"
  by code_simp

lemma int_of_str_abc: "int_of_str ''abc'' = None"
  by code_simp

lemma int_of_str_steamid: "int_of_str ''76561198000000001'' = Some 76561198000000001"
  by code_simp

section \<open>Mapper-credit restructuring\<close>

text \<open>
  C3, as the code has it: on a non-empty record with neither the \<^verbatim>\<open>mapper_name\<close> nor the
  \<^verbatim>\<open>mapper_steamid64\<close> key, \<^verbatim>\<open>_fix_mappers\<close> stores the empty list under \<^verbatim>\<open>mappers\<close>
  and changes nothing else.
\<close>

theorem fix_mappers_no_fields:
  assumes "m \<noteq> []"
    and "dict_get m MAPPER_NAME_KEY = None"
    and "dict_get m MAPPER_ID64_KEY = None"
  shows "fix_mappers (Some m) = Inr (Some (dict_set m MAPPERS_KEY (VList [])))"
  using assms by (simp add: fix_mappers_def py_len_def norm_list_def)

theorem fix_mappers_no_fields_witness:
  "fix_mappers (Some [(''id'', VInt 7)]) = Inr (Some [(''id'', VInt 7), (MAPPERS_KEY, VList [])])"
  using fix_mappers_no_fields [of "[(''id'', VInt 7)]"] by (simp add: dict_get_def)

text \<open>
  C3 as it is stated fails: the record \<^verbatim>\<open>{"name": "x"}\<close> has no \<^verbatim>\<open>mappers\<close> key before
  the call and has one after it.
\<close>

theorem fix_mappers_adds_empty_mappers:
  "dict_get [(''name'', VStr ''x'')] MAPPERS_KEY = None \<and>
   fix_mappers (Some [(''name'', VStr ''x'')]) =
     Inr (Some [(''name'', VStr ''x''), (MAPPERS_KEY, VList [])])"
  by (simp add: fix_mappers_def py_len_def norm_list_def dict_get_def)

text \<open>
  C10: on a non-empty record whose \<^verbatim>\<open>mapper_name\<close> or \<^verbatim>\<open>mapper_steamid64\<close> key holds the
  empty string, \<^verbatim>\<open>_str_to_list\<close> gives \<^verbatim>\<open>None\<close> for that field and \<^verbatim>\<open>_fix_mappers\<close> raises:
  \<^verbatim>\<open>TypeError\<close> from \<^verbatim>\<open>len(None)\<close>, unless the other field already raised
  \<^verbatim>\<open>AttributeError\<close>.
\<close>

theorem fix_mappers_empty_field_raises:
  assumes "m \<noteq> []"
    and "dict_get m MAPPER_NAME_KEY = Some (VStr []) \<or> dict_get m MAPPER_ID64_KEY = Some (VStr [])"
  shows "str_to_list (VStr []) (Some STR_SEPARATOR) = Inr None \<and>
         (fix_mappers (Some m) = Inl TypeError \<or> fix_mappers (Some m) = Inl AttributeError)"
  using assms
  by (auto simp: fix_mappers_def str_to_list_def py_len_def dict_get_del py_split_def
           split: option.splits pyval.splits)

theorem fix_mappers_empty_field_raises_witness:
  "str_to_list (VStr []) (Some STR_SEPARATOR) = Inr None \<and>
   (fix_mappers (Some [(MAPPER_NAME_KEY, VStr ''Alice''), (MAPPER_ID64_KEY, VStr [])]) = Inl TypeError \<or>
    fix_mappers (Some [(MAPPER_NAME_KEY, VStr ''Alice''), (MAPPER_ID64_KEY, VStr [])]) = Inl AttributeError)"
  using fix_mappers_empty_field_raises
          [of "[(MAPPER_NAME_KEY, VStr ''Alice''), (MAPPER_ID64_KEY, VStr [])]"]
  by (simp add: dict_get_def)

section \<open>URL normalization\<close>

text \<open>
  C7: on a non-empty record without the designated URL key (\<^verbatim>\<open>workshop_url\<close>),
  \<^verbatim>\<open>_fix_urls\<close> raises \<^verbatim>\<open>KeyError\<close>; on an absent or empty record it changes nothing.
\<close>

theorem fix_urls_missing_key:
  "(m \<noteq> [] \<and> k \<in> set URL_KEYS \<and> dict_get m k = None \<longrightarrow> fix_urls (Some m) = Inl KeyError)
   \<and> fix_urls None = Inr None \<and> fix_urls (Some []) = Inr (Some [])"
  by (auto simp: fix_urls_def URL_KEYS_def dict_getitem_def)

theorem fix_urls_missing_key_witness:
  "fix_urls (Some [(''id'', VStr ''5'')]) = Inl KeyError"
  using fix_urls_missing_key [of "[(''id'', VStr ''5'')]" "''workshop_url''"]
  by (simp add: URL_KEYS_def dict_get_def)

section \<open>The end-to-end record\<close>

text \<open>
  C2: normalizing the one-element array holding the record of the scenario gives exactly
  the record the specification lists, the \<^verbatim>\<open>mappers\<close> entry last.
\<close>

theorem fix_maps_example:
  "fix_maps (Some [Some [(''id'', VStr ''5''), (''name'', VStr ''kz_example''),
                         (''mapper_name'', VStr ''Alice, Bob''),
                         (''mapper_steamid64'', VStr ''76561198000000001''),
                         (''workshop_url'', VStr ''http://x/?id=5'')]]) =
   Inr (Some [Some [(''id'', VInt 5), (''name'', VStr ''kz_example''),
                    (''workshop_url'', VStr ''https://x?id=5''),
                    (''mappers'',
                     VList [VDict [(''name'', VStr ''Alice''), (''id64'', VInt 76561198000000001)],
                            VDict [(''name'', VStr ''Bob''), (''id64'', VNone)]])]])"
  by code_simp

section \<open>Construction of a mapper credit\<close>

lemma py_int_not_None: "py_int v \<noteq> Inr VNone"
  by (cases v) (auto split: option.splits)

lemma py_str_not_None: "py_str v \<noteq> Inr VNone"
  by (simp add: py_str_def)

lemma py_int_VInt: "py_int v = Inr d \<Longrightarrow> \<exists>i. d = VInt i"
  by (cases v) (auto split: option.splits)

lemma fix_val_str_returns: "\<exists>n. fix_val name py_str = Inr n"
  by (simp add: fix_val_def py_str_def)

text \<open>
  C5, as the code has it: \<^verbatim>\<open>Mapper(name, id64)\<close> raises exactly when \<^verbatim>\<open>id64\<close> is truthy, is
  not the text \<^verbatim>\<open>null\<close>, and \<^verbatim>\<open>int\<close> rejects it. Otherwise it returns the dictionary with the
  keys \<^verbatim>\<open>name\<close> and \<^verbatim>\<open>id64\<close>, where a field is \<^verbatim>\<open>None\<close> exactly when its raw value is falsy
  or the text \<^verbatim>\<open>null\<close>, and is otherwise \<^verbatim>\<open>str\<close> of the raw name (the same string, for a
  string) and \<^verbatim>\<open>int\<close> of the raw id.
\<close>

theorem Mapper_fields:
  "(\<forall>e. truthy id64 \<and> id64 \<noteq> VStr ''null'' \<and> py_int id64 = Inl e \<longrightarrow>
        Mapper name id64 = Inl e) \<and>
   (\<not> (truthy id64 \<and> id64 \<noteq> VStr ''null'' \<and> (\<exists>e. py_int id64 = Inl e)) \<longrightarrow>
      (\<exists>n d. Mapper name id64 = Inr (VDict [(NAME_KEY, n), (ID64_KEY, d)]) \<and>
         (n = VNone \<longleftrightarrow> \<not> truthy name \<or> name = VStr ''null'') \<and>
         (truthy name \<and> name \<noteq> VStr ''null'' \<longrightarrow> py_str name = Inr n) \<and>
         (\<forall>s. name = VStr s \<and> s \<noteq> [] \<and> s \<noteq> ''null'' \<longrightarrow> n = VStr s) \<and>
         (d = VNone \<longleftrightarrow> \<not> truthy id64 \<or> id64 = VStr ''null'') \<and>
         (truthy id64 \<and> id64 \<noteq> VStr ''null'' \<longrightarrow> py_int id64 = Inr d) \<and>
         (\<forall>t i. id64 = VStr t \<and> t \<noteq> [] \<and> t \<noteq> ''null'' \<and> int_of_str t = Some i \<longrightarrow>
              d = VInt i)))"
proof (intro conjI allI impI)
  fix e assume "truthy id64 \<and> id64 \<noteq> VStr ''null'' \<and> py_int id64 = Inl e"
  moreover obtain n where "fix_val name py_str = Inr n"
    using fix_val_str_returns by blast
  ultimately show "Mapper name id64 = Inl e"
    by (simp add: Mapper_def) (simp add: fix_val_def)
next
  assume ok: "\<not> (truthy id64 \<and> id64 \<noteq> VStr ''null'' \<and> (\<exists>e. py_int id64 = Inl e))"
  obtain n where n: "fix_val name py_str = Inr n"
    using fix_val_str_returns by blast
  have n_none: "n = VNone \<longleftrightarrow> \<not> truthy name \<or> name = VStr ''null''"
    using n by (auto simp: fix_val_def py_str_def split: if_splits)
  have n_str: "truthy name \<and> name \<noteq> VStr ''null'' \<longrightarrow> py_str name = Inr n"
    using n by (auto simp: fix_val_def)
  have n_same: "\<forall>s. name = VStr s \<and> s \<noteq> [] \<and> s \<noteq> ''null'' \<longrightarrow> n = VStr s"
    using n by (auto simp: fix_val_def py_str_def)
  have "\<exists>d. fix_val id64 py_int = Inr d"
  proof (cases "truthy id64 \<and> id64 \<noteq> VStr ''null''")
    case True
    with ok obtain b where "py_int id64 = Inr b"
      by (cases "py_int id64") auto
    with True show ?thesis by (simp add: fix_val_def)
  next
    case False
    then show ?thesis by (auto simp: fix_val_def)
  qed
  then obtain d where d: "fix_val id64 py_int = Inr d" by blast
  have d_none: "d = VNone \<longleftrightarrow> \<not> truthy id64 \<or> id64 = VStr ''null''"
    using d py_int_not_None [of id64] by (auto simp: fix_val_def split: if_splits)
  have d_int: "truthy id64 \<and> id64 \<noteq> VStr ''null'' \<longrightarrow> py_int id64 = Inr d"
    using d by (auto simp: fix_val_def)
  have d_same: "\<forall>t i. id64 = VStr t \<and> t \<noteq> [] \<and> t \<noteq> ''null'' \<and> int_of_str t = Some i \<longrightarrow>
              d = VInt i"
    using d by (auto simp: fix_val_def)
  have "Mapper name id64 = Inr (VDict [(NAME_KEY, n), (ID64_KEY, d)])"
    using n d by (simp add: Mapper_def)
  with n_none n_str n_same d_none d_int d_same
  show "\<exists>n d. Mapper name id64 = Inr (VDict [(NAME_KEY, n), (ID64_KEY, d)]) \<and>
         (n = VNone \<longleftrightarrow> \<not> truthy name \<or> name = VStr ''null'') \<and>
         (truthy name \<and> name \<noteq> VStr ''null'' \<longrightarrow> py_str name = Inr n) \<and>
         (\<forall>s. name = VStr s \<and> s \<noteq> [] \<and> s \<noteq> ''null'' \<longrightarrow> n = VStr s) \<and>
         (d = VNone \<longleftrightarrow> \<not> truthy id64 \<or> id64 = VStr ''null'') \<and>
         (truthy id64 \<and> id64 \<noteq> VStr ''null'' \<longrightarrow> py_int id64 = Inr d) \<and>
         (\<forall>t i. id64 = VStr t \<and> t \<noteq> [] \<and> t \<noteq> ''null'' \<and> int_of_str t = Some i \<longrightarrow>
              d = VInt i)"
    by - (rule exI [of _ n], rule exI [of _ d], simp)
qed

theorem Mapper_fields_witness:
  "Mapper (VStr ''Alice'') (VStr ''76561198000000001'') =
     Inr (VDict [(NAME_KEY, VStr ''Alice''), (ID64_KEY, VInt 76561198000000001)]) \<and>
   Mapper (VStr ''null'') (VStr []) = Inr (VDict [(NAME_KEY, VNone), (ID64_KEY, VNone)]) \<and>
   Mapper (VStr ''Alice'') (VStr ''abc'') = Inl ValueError"
proof -
  have "Mapper (VStr ''Alice'') (VStr ''76561198000000001'') =
     Inr (VDict [(NAME_KEY, VStr ''Alice''), (ID64_KEY, VInt 76561198000000001)])"
    using Mapper_fields [of "VStr ''76561198000000001''" "VStr ''Alice''"]
    by (auto simp: int_of_str_steamid)
  moreover have "Mapper (VStr ''null'') (VStr []) = Inr (VDict [(NAME_KEY, VNone), (ID64_KEY, VNone)])"
    using Mapper_fields [of "VStr []" "VStr ''null''"] by auto
  moreover have "Mapper (VStr ''Alice'') (VStr ''abc'') = Inl ValueError"
    using Mapper_fields [of "VStr ''abc''" "VStr ''Alice''"] by (simp add: int_of_str_abc)
  ultimately show ?thesis by simp
qed

text \<open>
  C5 as it is stated fails: the raw id \<^verbatim>\<open>abc\<close> is truthy and is not \<^verbatim>\<open>null\<close>, and the
  construction raises instead of storing a field.
\<close>

theorem Mapper_non_numeric_id:
  "truthy (VStr ''abc'') \<and> VStr ''abc'' \<noteq> VStr ''null'' \<and>
   Mapper (VStr ''Alice'') (VStr ''abc'') = Inl ValueError"
  by (simp add: Mapper_def fix_val_def py_str_def int_of_str_abc)

section \<open>The fetcher\<close>

text \<open>
  C8, as the code has it: a falsy URL gives \<^verbatim>\<open>None\<close> and no request is made; otherwise
  the URL is requested once, and the result is the exception of the request, or
  \<^verbatim>\<open>HTTPError\<close> for a status from 400 to 599, or \<^verbatim>\<open>None\<close> for status 204, or for any
  other status what parsing the body gives (a value, which may be \<^verbatim>\<open>None\<close>, or the
  parse error).
\<close>

theorem get_url_json_cases:
  "get_url_json http_get None reqs = (Inr VNone, reqs) \<and>
   get_url_json http_get (Some []) reqs = (Inr VNone, reqs) \<and>
   (u \<noteq> [] \<longrightarrow>
      get_url_json http_get (Some u) reqs =
        (case http_get u of
           Inl e \<Rightarrow> Inl e
         | Inr r \<Rightarrow>
             if 400 \<le> status_code r \<and> status_code r < 600 then Inl HTTPError
             else if status_code r = 204 then Inr VNone
             else json r,
         reqs @ [u]))"
  by (auto simp: get_url_json_def get_url_response_def raise_for_status_def split: sum.splits)

theorem get_url_json_cases_witness:
  "get_url_json (\<lambda>u. Inr \<lparr>status_code = 204, json = Inl JSONDecodeError\<rparr>) (Some ''u'') [] =
     (Inr VNone, [''u''])"
  using get_url_json_cases
          [of "\<lambda>u. Inr \<lparr>status_code = 204, json = Inl JSONDecodeError\<rparr>" "[]" "''u''"]
  by simp

text \<open>
  C8 as it is stated fails: a response with status 200 whose body is the JSON text
  \<^verbatim>\<open>null\<close> gives \<^verbatim>\<open>None\<close> too, with a truthy URL and a status other than 204.
\<close>

theorem get_url_json_null_body:
  "get_url_json (\<lambda>u. Inr \<lparr>status_code = 200, json = Inr VNone\<rparr>) (Some ''u'') [] =
     (Inr VNone, [''u''])"
  by (simp add: get_url_json_def get_url_response_def raise_for_status_def)

section \<open>Integer type coercion\<close>

text \<open>
  When every truthy value under the remaining keys converts, the loop returns a record
  with the same keys in the same order, where the truthy values under these keys are
  replaced by their integers and everything else is as before.
\<close>

lemma fix_types_loop_ok:
  assumes "\<forall>k\<in>set keys. \<forall>v. dict_get m k = Some v \<and> truthy v \<longrightarrow> (\<exists>i. py_int v = Inr (VInt i))"
    and "distinct keys"
  shows "\<exists>m'. fix_types_loop keys m = Inr m' \<and> map fst m' = map fst m \<and>
           (\<forall>k. dict_get m k = None \<longrightarrow> dict_get m' k = None) \<and>
           (\<forall>k v. dict_get m k = Some v \<longrightarrow>
              (if k \<in> set keys \<and> truthy v
               then \<exists>i. py_int v = Inr (VInt i) \<and> dict_get m' k = Some (VInt i)
               else dict_get m' k = Some v))"
  using assms
proof (induction keys arbitrary: m)
  case Nil
  then show ?case by simp
next
  case (Cons key keys)
  have rest: "\<forall>k\<in>set keys. \<forall>v. dict_get m k = Some v \<and> truthy v \<longrightarrow> (\<exists>i. py_int v = Inr (VInt i))"
    and dist: "distinct keys" and notin: "key \<notin> set keys"
    using Cons.prems by simp_all
  show ?case
  proof (cases "\<exists>val. dict_get m key = Some val \<and> truthy val")
    case False
    then have skip: "fix_types_loop (key # keys) m = fix_types_loop keys m"
      by (auto split: option.splits)
    obtain m' where m': "fix_types_loop keys m = Inr m'" "map fst m' = map fst m"
      "\<forall>k. dict_get m k = None \<longrightarrow> dict_get m' k = None"
      "\<forall>k v. dict_get m k = Some v \<longrightarrow>
              (if k \<in> set keys \<and> truthy v
               then \<exists>i. py_int v = Inr (VInt i) \<and> dict_get m' k = Some (VInt i)
               else dict_get m' k = Some v)"
      using Cons.IH [OF rest dist] by blast
    have "\<forall>k v. dict_get m k = Some v \<longrightarrow>
              (if k \<in> set (key # keys) \<and> truthy v
               then \<exists>i. py_int v = Inr (VInt i) \<and> dict_get m' k = Some (VInt i)
               else dict_get m' k = Some v)"
      using m'(4) False by auto
    with skip m'(1,2,3) show ?thesis by - (rule exI [of _ m'], simp)
  next
    case True
    then obtain val where val: "dict_get m key = Some val" "truthy val" by blast
    then obtain i where i: "py_int val = Inr (VInt i)"
      using Cons.prems(1) by auto
    let ?m1 = "dict_set m key (VInt i)"
    have step: "fix_types_loop (key # keys) m = fix_types_loop keys ?m1"
      using val i by simp
    have "\<forall>k\<in>set keys. \<forall>v. dict_get ?m1 k = Some v \<and> truthy v \<longrightarrow> (\<exists>i. py_int v = Inr (VInt i))"
      using rest notin by (auto simp: dict_get_set)
    then obtain m' where m': "fix_types_loop keys ?m1 = Inr m'" "map fst m' = map fst ?m1"
      "\<forall>k. dict_get ?m1 k = None \<longrightarrow> dict_get m' k = None"
      "\<forall>k v. dict_get ?m1 k = Some v \<longrightarrow>
              (if k \<in> set keys \<and> truthy v
               then \<exists>i. py_int v = Inr (VInt i) \<and> dict_get m' k = Some (VInt i)
               else dict_get m' k = Some v)"
      using Cons.IH [OF _ dist, of ?m1] by blast
    have keys: "map fst m' = map fst m"
      using m'(2) val(1) by (simp add: keys_dict_set)
    have none: "dict_get m' k = None" if "dict_get m k = None" for k
    proof -
      from that val(1) have "k \<noteq> key" by auto
      with that have "dict_get ?m1 k = None" by (simp add: dict_get_set)
      with m'(3) show ?thesis by simp
    qed
    have at_key: "dict_get m' key = Some (VInt i)"
    proof -
      have "dict_get ?m1 key = Some (VInt i)" by (simp add: dict_get_set)
      with m'(4) notin show ?thesis by (metis (full_types))
    qed
    have some: "if k \<in> set (key # keys) \<and> truthy v
          then \<exists>i. py_int v = Inr (VInt i) \<and> dict_get m' k = Some (VInt i)
          else dict_get m' k = Some v" if kv: "dict_get m k = Some v" for k v
    proof (cases "k = key")
      case True
      with kv val i at_key show ?thesis by auto
    next
      case False
      with kv have "dict_get ?m1 k = Some v" by (simp add: dict_get_set)
      with m'(4) have "if k \<in> set keys \<and> truthy v
          then \<exists>i. py_int v = Inr (VInt i) \<and> dict_get m' k = Some (VInt i)
          else dict_get m' k = Some v" by blast
      with False show ?thesis by auto
    qed
    from step m'(1) keys none some show ?thesis by - (rule exI [of _ m'], simp)
  qed
qed

text \<open>A truthy string under one of the keys that is no integer literal makes the loop raise.\<close>

lemma fix_types_loop_raises:
  assumes "k \<in> set keys" and "dict_get m k = Some (VStr s)" and "s \<noteq> []" and "int_of_str s = None"
    and "distinct keys"
  shows "fix_types_loop keys m = Inl ValueError \<or> fix_types_loop keys m = Inl TypeError"
  using assms
proof (induction keys arbitrary: m)
  case Nil
  then show ?case by simp
next
  case (Cons key keys)
  show ?case
  proof (cases "key = k")
    case True
    then show ?thesis using Cons.prems by simp
  next
    case False
    then have k: "k \<in> set keys" and dist: "distinct keys" using Cons.prems by auto
    have same: "fix_types_loop keys m = Inl ValueError \<or> fix_types_loop keys m = Inl TypeError"
      using Cons.IH [OF k Cons.prems(2,3,4) dist] .
    have upd: "fix_types_loop keys (dict_set m key w) = Inl ValueError
             \<or> fix_types_loop keys (dict_set m key w) = Inl TypeError" for w
      using Cons.IH [OF k _ Cons.prems(3,4) dist, of "dict_set m key w"] Cons.prems(2) False
      by (simp add: dict_get_set)
    have err: "py_int v = Inl e \<Longrightarrow> e = ValueError \<or> e = TypeError" for v e
      by (cases v) (auto split: option.splits)
    show ?thesis
    proof (cases "dict_get m key")
      case None
      then show ?thesis using same by simp
    next
      case (Some val)
      show ?thesis
      proof (cases "truthy val")
        case False
        then show ?thesis using Some same by simp
      next
        case True
        then show ?thesis using Some upd err [of val]
          by (cases "py_int val") auto
      qed
    qed
  qed
qed

text \<open>
  C6: on a non-empty record where every truthy value under \<^verbatim>\<open>id\<close> and \<^verbatim>\<open>difficulty\<close>
  converts to an integer, \<^verbatim>\<open>_fix_types\<close> returns; the keys and their order are kept, an
  absent key stays absent, a falsy value and every value under another key stay as they
  are, and a truthy value under \<^verbatim>\<open>id\<close> or \<^verbatim>\<open>difficulty\<close> is replaced by its integer.
  When one of the two keys holds a non-empty string that is no integer literal, the call
  raises (\<^verbatim>\<open>ValueError\<close>, or the \<^verbatim>\<open>TypeError\<close> of the other key if that comes first).
\<close>

theorem fix_types_coerces:
  assumes "m \<noteq> []"
  shows "((\<forall>k\<in>set INT_KEYS. \<forall>v. dict_get m k = Some v \<and> truthy v \<longrightarrow> (\<exists>i. py_int v = Inr (VInt i)))
          \<longrightarrow> (\<exists>m'. fix_types (Some m) = Inr (Some m') \<and> map fst m' = map fst m \<and>
                 (\<forall>k. dict_get m k = None \<longrightarrow> dict_get m' k = None) \<and>
                 (\<forall>k v. dict_get m k = Some v \<longrightarrow>
                    (if k \<in> set INT_KEYS \<and> truthy v
                     then \<exists>i. py_int v = Inr (VInt i) \<and> dict_get m' k = Some (VInt i)
                     else dict_get m' k = Some v))))
       \<and> ((\<exists>k\<in>set INT_KEYS. \<exists>s. dict_get m k = Some (VStr s) \<and> s \<noteq> [] \<and> int_of_str s = None)
          \<longrightarrow> fix_types (Some m) = Inl ValueError \<or> fix_types (Some m) = Inl TypeError)"
proof (intro conjI impI)
  have dist: "distinct INT_KEYS" by (simp add: INT_KEYS_def)
  {
    assume "\<forall>k\<in>set INT_KEYS. \<forall>v. dict_get m k = Some v \<and> truthy v \<longrightarrow> (\<exists>i. py_int v = Inr (VInt i))"
    from fix_types_loop_ok [OF this dist] obtain m' where
      "fix_types_loop INT_KEYS m = Inr m'" "map fst m' = map fst m"
      "\<forall>k. dict_get m k = None \<longrightarrow> dict_get m' k = None"
      "\<forall>k v. dict_get m k = Some v \<longrightarrow>
              (if k \<in> set INT_KEYS \<and> truthy v
               then \<exists>i. py_int v = Inr (VInt i) \<and> dict_get m' k = Some (VInt i)
               else dict_get m' k = Some v)"
      by blast
    with assms
    show "\<exists>m'. fix_types (Some m) = Inr (Some m') \<and> map fst m' = map fst m \<and>
                 (\<forall>k. dict_get m k = None \<longrightarrow> dict_get m' k = None) \<and>
                 (\<forall>k v. dict_get m k = Some v \<longrightarrow>
                    (if k \<in> set INT_KEYS \<and> truthy v
                     then \<exists>i. py_int v = Inr (VInt i) \<and> dict_get m' k = Some (VInt i)
                     else dict_get m' k = Some v))"
      by - (rule exI [of _ m'], simp add: fix_types_def)
  }
  {
    assume "\<exists>k\<in>set INT_KEYS. \<exists>s. dict_get m k = Some (VStr s) \<and> s \<noteq> [] \<and> int_of_str s = None"
    then obtain k s where "k \<in> set INT_KEYS" "dict_get m k = Some (VStr s)" "s \<noteq> []"
        "int_of_str s = None"
      by blast
    from fix_types_loop_raises [OF this dist] assms
    show "fix_types (Some m) = Inl ValueError \<or> fix_types (Some m) = Inl TypeError"
      by (auto simp: fix_types_def)
  }
qed

theorem fix_types_coerces_witness:
  "(\<exists>m'. fix_types (Some [(''id'', VStr ''5''), (''difficulty'', VInt 0)]) = Inr (Some m') \<and>
          dict_get m' ''id'' = Some (VInt 5) \<and> dict_get m' ''difficulty'' = Some (VInt 0)) \<and>
   (fix_types (Some [(''id'', VStr ''abc'')]) = Inl ValueError \<or>
    fix_types (Some [(''id'', VStr ''abc'')]) = Inl TypeError)"
proof -
  let ?ok = "[(''id'', VStr ''5''), (''difficulty'', VInt 0)]"
  let ?bad = "[(''id'', VStr ''abc'')]"
  have h1: "\<forall>k\<in>set INT_KEYS. \<forall>v. dict_get ?ok k = Some v \<and> truthy v \<longrightarrow> (\<exists>i. py_int v = Inr (VInt i))"
    by (simp add: INT_KEYS_def dict_get_def int_of_str_5)
  have h2: "\<exists>k\<in>set INT_KEYS. \<exists>s. dict_get ?bad k = Some (VStr s) \<and> s \<noteq> [] \<and> int_of_str s = None"
    by (simp add: INT_KEYS_def dict_get_def int_of_str_abc)
  have ne: "?ok \<noteq> []" "?bad \<noteq> []" by simp_all
  from fix_types_coerces [OF ne(1)] h1 obtain m' where m':
      "fix_types (Some ?ok) = Inr (Some m')"
      "\<forall>k v. dict_get ?ok k = Some v \<longrightarrow>
              (if k \<in> set INT_KEYS \<and> truthy v
               then \<exists>i. py_int v = Inr (VInt i) \<and> dict_get m' k = Some (VInt i)
               else dict_get m' k = Some v)"
    by blast
  have "dict_get m' ''id'' = Some (VInt 5)"
    using m'(2) [rule_format, of "''id''" "VStr ''5''"]
    by (simp add: dict_get_def INT_KEYS_def int_of_str_5)
  moreover have "dict_get m' ''difficulty'' = Some (VInt 0)"
    using m'(2) [rule_format, of "''difficulty''" "VInt 0"]
    by (simp add: dict_get_def INT_KEYS_def)
  moreover have "fix_types (Some ?bad) = Inl ValueError \<or> fix_types (Some ?bad) = Inl TypeError"
    using fix_types_coerces [OF ne(2)] h2 by blast
  ultimately show ?thesis using m'(1) by blast
qed

section \<open>URL normalization applied twice\<close>

text \<open>A replacement changes the string exactly when the pattern occurs in it.\<close>

lemma replace_first_absent: "\<not> str_contains old s \<Longrightarrow> replace_first old new s = s"
  by (induction s) auto

lemma replace_first_changes:
  "str_contains old s \<Longrightarrow> new \<noteq> old \<Longrightarrow> replace_first old new s \<noteq> s"
proof (induction s)
  case Nil
  then show ?case by auto
next
  case (Cons c cs)
  show ?case
  proof (cases "take (length old) (c # cs) = old")
    case True
    have "c # cs = old @ drop (length old) (c # cs)"
      using True by (metis append_take_drop_id)
    moreover have "new @ drop (length old) (c # cs) \<noteq> old @ drop (length old) (c # cs)"
      using Cons.prems(2) by simp
    ultimately show ?thesis using True by simp
  next
    case False
    with Cons show ?thesis by simp
  qed
qed

lemma replace_first_here:
  "take (length old) (c # cs) = old \<Longrightarrow>
     replace_first old new (c # cs) = new @ drop (length old) (c # cs)"
  by simp

lemma replace_first_later:
  "take (length old) (c # cs) \<noteq> old \<Longrightarrow>
     replace_first old new (c # cs) = c # replace_first old new cs"
  by simp

lemma normalize_changes_scheme:
  "str_contains ''http://'' v \<Longrightarrow>
     replace_first ''/?'' ''?'' (replace_first ''http://'' ''https://'' v) \<noteq> v"
proof (induction v)
  case Nil
  then show ?case by simp
next
  case (Cons c cs)
  show ?case
  proof (cases "take (length ''http://'') (c # cs) = ''http://''")
    case True
    then obtain rest where "c # cs = ''http://'' @ rest"
      by (metis append_take_drop_id)
    then show ?thesis by simp
  next
    case False
    have "str_contains ''http://'' cs"
      using Cons.prems False unfolding str_contains.simps by blast
    then have IH: "replace_first ''/?'' ''?'' (replace_first ''http://'' ''https://'' cs) \<noteq> cs"
      by (rule Cons.IH)
    have rf: "replace_first ''http://'' ''https://'' (c # cs) = c # replace_first ''http://'' ''https://'' cs"
      using False by (rule replace_first_later)
    show ?thesis
    proof (cases "take (length ''/?'') (c # replace_first ''http://'' ''https://'' cs) = ''/?''")
      case True
      then have c: "c = CHR ''/''" by simp
      have "replace_first ''/?'' ''?'' (c # replace_first ''http://'' ''https://'' cs) =
              ''?'' @ drop (length ''/?'') (c # replace_first ''http://'' ''https://'' cs)"
        using True by (rule replace_first_here)
      then show ?thesis unfolding rf using c by simp
    next
      case False
      have "replace_first ''/?'' ''?'' (c # replace_first ''http://'' ''https://'' cs) =
              c # replace_first ''/?'' ''?'' (replace_first ''http://'' ''https://'' cs)"
        using False by (rule replace_first_later)
      then show ?thesis unfolding rf using IH by simp
    qed
  qed
qed

lemma normalize_fixpoint_iff:
  "replace_first ''/?'' ''?'' (replace_first ''http://'' ''https://'' v) = v \<longleftrightarrow>
     \<not> str_contains ''http://'' v \<and> \<not> str_contains ''/?'' v"
proof
  assume fp: "replace_first ''/?'' ''?'' (replace_first ''http://'' ''https://'' v) = v"
  have h: "\<not> str_contains ''http://'' v"
    using fp normalize_changes_scheme by blast
  then have "replace_first ''http://'' ''https://'' v = v"
    by (rule replace_first_absent)
  with fp have "replace_first ''/?'' ''?'' v = v" by simp
  then have "\<not> str_contains ''/?'' v"
    using replace_first_changes [of "''/?''" v "''?''"] by auto
  with h show "\<not> str_contains ''http://'' v \<and> \<not> str_contains ''/?'' v" by simp
next
  assume "\<not> str_contains ''http://'' v \<and> \<not> str_contains ''/?'' v"
  then show "replace_first ''/?'' ''?'' (replace_first ''http://'' ''https://'' v) = v"
    by (simp add: replace_first_absent)
qed

lemma fix_urls_string:
  assumes "m \<noteq> []" and "dict_get m ''workshop_url'' = Some (VStr u)"
  shows "fix_urls (Some m) =
          Inr (Some (dict_set m ''workshop_url''
            (VStr (replace_first ''/?'' ''?'' (replace_first ''http://'' ''https://'' u)))))"
  using assms by (simp add: fix_urls_def URL_KEYS_def dict_getitem_def py_replace_def)

lemma dict_set_nonempty: "dict_set m k v \<noteq> []"
  by (cases m) auto

text \<open>
  C4, as the code has it: on a non-empty record whose \<^verbatim>\<open>workshop_url\<close> is a string,
  applying \<^verbatim>\<open>_fix_urls\<close> twice gives the same record as applying it once exactly when
  the URL left by the first application contains neither \<^verbatim>\<open>http://\<close> nor \<^verbatim>\<open>/?\<close>.
\<close>

theorem fix_urls_twice:
  assumes "m \<noteq> []" and "dict_get m ''workshop_url'' = Some (VStr u)"
  shows "ebind (fix_urls (Some m)) fix_urls = fix_urls (Some m) \<longleftrightarrow>
           \<not> str_contains ''http://'' (replace_first ''/?'' ''?'' (replace_first ''http://'' ''https://'' u)) \<and>
           \<not> str_contains ''/?'' (replace_first ''/?'' ''?'' (replace_first ''http://'' ''https://'' u))"
proof -
  let ?v = "replace_first ''/?'' ''?'' (replace_first ''http://'' ''https://'' u)"
  let ?m1 = "dict_set m ''workshop_url'' (VStr ?v)"
  have once: "fix_urls (Some m) = Inr (Some ?m1)"
    using assms by (rule fix_urls_string)
  have second: "fix_urls (Some ?m1) =
          Inr (Some (dict_set ?m1 ''workshop_url''
            (VStr (replace_first ''/?'' ''?'' (replace_first ''http://'' ''https://'' ?v)))))"
    by (rule fix_urls_string) (simp_all add: dict_set_nonempty dict_get_set)
  show ?thesis
    by (simp add: once second dict_set_twice dict_set_inject normalize_fixpoint_iff)
qed

theorem fix_urls_twice_witness:
  "ebind (fix_urls (Some [(''workshop_url'', VStr ''http://x/?id=5'')])) fix_urls =
     fix_urls (Some [(''workshop_url'', VStr ''http://x/?id=5'')])"
proof -
  have "\<not> str_contains ''http://'' (replace_first ''/?'' ''?'' (replace_first ''http://'' ''https://'' ''http://x/?id=5'')) \<and>
        \<not> str_contains ''/?'' (replace_first ''/?'' ''?'' (replace_first ''http://'' ''https://'' ''http://x/?id=5''))"
    by code_simp
  then show ?thesis
    using fix_urls_twice [of "[(''workshop_url'', VStr ''http://x/?id=5'')]" "''http://x/?id=5''"]
    by (simp add: dict_get_def)
qed

text \<open>
  C4 as it is stated fails: only the first occurrence is replaced, so the URL
  \<^verbatim>\<open>http://http://x\<close> is changed by the first application and again by the second.
\<close>

theorem fix_urls_not_idempotent:
  "fix_urls (Some [(''workshop_url'', VStr ''http://http://x'')]) =
     Inr (Some [(''workshop_url'', VStr ''https://http://x'')]) \<and>
   ebind (fix_urls (Some [(''workshop_url'', VStr ''http://http://x'')])) fix_urls =
     Inr (Some [(''workshop_url'', VStr ''https://https://x'')])"
  by code_simp

section \<open>The writer\<close>









section \<open>The credits of a record\<close>

text \<open>When every index is in range and every credit can be built, the loop builds them all.\<close>

lemma mappers_loop_ok:
  assumes "\<forall>i\<in>set is. i < length ns \<and> i < length ds \<and> Mapper (ns ! i) (ds ! i) = Inr (cr i)"
  shows "mappers_loop (Some ns) (Some ds) is acc = Inr (acc @ map cr is)"
  using assms by (induction "is" arbitrary: acc) (simp_all add: py_index_def)

lemma norm_list_pad:
  "length xs \<le> N \<Longrightarrow>
     norm_list (Some xs) (Some (int N)) = Some (xs @ replicate (N - length xs) VNone)"
  by (simp add: norm_list_def nat_diff_distrib')

lemma nth_padded:
  "(map VStr xs @ replicate k VNone) ! i = (if i < length xs then VStr (xs ! i) else VNone)"
  if "i < length xs + k"
  using that by (simp add: nth_append)

lemma fix_val_name:
  "fix_val (VStr a) py_str = Inr (if a \<noteq> [] \<and> a \<noteq> ''null'' then VStr a else VNone)"
  by (simp add: fix_val_def py_str_def)

lemma fix_val_VNone: "fix_val VNone ty = Inr VNone"
  by (simp add: fix_val_def)

lemma field_stage:
  assumes "(dict_get m key = None \<and> xs = []) \<or>
           (\<exists>s. s \<noteq> [] \<and> dict_get m key = Some (VStr s) \<and> xs = split_sep STR_SEPARATOR [] s)"
  shows "\<exists>m1. (case dict_get m key of
                 None \<Rightarrow> Inr (Some [], m)
               | Some v \<Rightarrow> ebind (str_to_list v (Some STR_SEPARATOR)) (\<lambda>l. Inr (l, dict_del m key)))
              = Inr (Some (map VStr xs), m1) \<and>
              (\<forall>k. dict_get m1 k = (if k = key then None else dict_get m k))"
  using assms
proof
  assume "dict_get m key = None \<and> xs = []"
  then show ?thesis by - (rule exI [of _ m], simp)
next
  assume "\<exists>s. s \<noteq> [] \<and> dict_get m key = Some (VStr s) \<and> xs = split_sep STR_SEPARATOR [] s"
  then obtain s where "s \<noteq> []" "dict_get m key = Some (VStr s)" "xs = split_sep STR_SEPARATOR [] s"
    by blast
  then show ?thesis
    by - (rule exI [of _ "dict_del m key"],
          simp add: str_to_list_def py_split_def dict_get_del)
qed


text \<open>
  C1, as the code has it: let the record be non-empty, let each of \<^verbatim>\<open>mapper_name\<close> and
  \<^verbatim>\<open>mapper_steamid64\<close> be absent (no substrings) or a non-empty string (its substrings
  \<open>names\<close>, \<open>ids\<close> are the pieces between \<^verbatim>\<open>", "\<close>), and let every id substring other than
  the empty one and \<^verbatim>\<open>null\<close> be an integer literal. Then \<^verbatim>\<open>_fix_mappers\<close> returns; the two
  keys are gone, the other entries are as before, and \<^verbatim>\<open>mappers\<close> is a list as long as
  the longer of the two lists, whose \<open>i\<close>-th credit has the \<open>i\<close>-th name and the integer of
  the \<open>i\<close>-th id, each \<^verbatim>\<open>None\<close> when its list is shorter or the substring is empty or
  \<^verbatim>\<open>null\<close>.
\<close>

theorem fix_mappers_credits:
  assumes "m \<noteq> []"
    and names: "(dict_get m MAPPER_NAME_KEY = None \<and> names = []) \<or>
           (\<exists>s. s \<noteq> [] \<and> dict_get m MAPPER_NAME_KEY = Some (VStr s) \<and>
                names = split_sep STR_SEPARATOR [] s)"
    and ids: "(dict_get m MAPPER_ID64_KEY = None \<and> ids = []) \<or>
           (\<exists>s. s \<noteq> [] \<and> dict_get m MAPPER_ID64_KEY = Some (VStr s) \<and>
                ids = split_sep STR_SEPARATOR [] s)"
    and numeric: "\<forall>t\<in>set ids. t \<noteq> [] \<and> t \<noteq> ''null'' \<longrightarrow> int_of_str t \<noteq> None"
  shows "\<exists>m' ms.
           fix_mappers (Some m) = Inr (Some m') \<and>
           dict_get m' MAPPER_NAME_KEY = None \<and>
           dict_get m' MAPPER_ID64_KEY = None \<and>
           dict_get m' MAPPERS_KEY = Some (VList ms) \<and>
           (\<forall>k. k \<noteq> MAPPER_NAME_KEY \<and> k \<noteq> MAPPER_ID64_KEY \<and> k \<noteq> MAPPERS_KEY \<longrightarrow>
                dict_get m' k = dict_get m k) \<and>
           length ms = max (length names) (length ids) \<and>
           (\<forall>i<length ms. \<exists>n d.
              ms ! i = VDict [(NAME_KEY, n), (ID64_KEY, d)] \<and>
              (if i < length names \<and> names ! i \<noteq> [] \<and> names ! i \<noteq> ''null''
               then n = VStr (names ! i) else n = VNone) \<and>
              (if i < length ids \<and> ids ! i \<noteq> [] \<and> ids ! i \<noteq> ''null''
               then py_int (VStr (ids ! i)) = Inr d else d = VNone))"
proof -
  define N where "N = max (length names) (length ids)"
  define ns where "ns = map VStr names @ replicate (N - length names) VNone"
  define ds where "ds = map VStr ids @ replicate (N - length ids) VNone"
  define nm where "nm = (\<lambda>i. if i < length names \<and> names ! i \<noteq> [] \<and> names ! i \<noteq> ''null''
                              then VStr (names ! i) else VNone)"
  define idv where "idv = (\<lambda>i. if i < length ids \<and> ids ! i \<noteq> [] \<and> ids ! i \<noteq> ''null''
                               then VInt (the (int_of_str (ids ! i))) else VNone)"
  define cr where "cr = (\<lambda>i. VDict [(NAME_KEY, nm i), (ID64_KEY, idv i)])"
  have len: "length names \<le> N" "length ids \<le> N" by (simp_all add: N_def)
  have lens: "length ns = N" "length ds = N" using len by (simp_all add: ns_def ds_def)
  have name_field: "fix_val (ns ! i) py_str = Inr (nm i)" if "i < N" for i
  proof -
    have "ns ! i = (if i < length names then VStr (names ! i) else VNone)"
      unfolding ns_def using that len by (intro nth_padded) simp
    then show ?thesis by (simp add: nm_def fix_val_name fix_val_VNone)
  qed
  have id_field: "fix_val (ds ! i) py_int = Inr (idv i)" if "i < N" for i
  proof -
    have nth: "ds ! i = (if i < length ids then VStr (ids ! i) else VNone)"
      unfolding ds_def using that len by (intro nth_padded) simp
    show ?thesis
    proof (cases "i < length ids \<and> ids ! i \<noteq> [] \<and> ids ! i \<noteq> ''null''")
      case True
      then have "int_of_str (ids ! i) \<noteq> None" using numeric by simp
      then obtain j where "int_of_str (ids ! i) = Some j" by blast
      with True nth show ?thesis by (simp add: idv_def fix_val_def)
    next
      case False
      with nth show ?thesis by (auto simp: idv_def fix_val_def)
    qed
  qed
  have "Mapper (ns ! i) (ds ! i) = Inr (cr i)" if "i < N" for i
    using name_field [OF that] id_field [OF that] by (simp add: Mapper_def cr_def)
  then have "\<forall>i\<in>set [0..<N]. i < length ns \<and> i < length ds \<and> Mapper (ns ! i) (ds ! i) = Inr (cr i)"
    using lens by simp
  then have loop: "mappers_loop (Some ns) (Some ds) [0..<N] [] = Inr (map cr [0..<N])"
    using mappers_loop_ok [of "[0..<N]" ns ds cr "[]"] by simp
  obtain m1 where stage1:
      "(case dict_get m MAPPER_NAME_KEY of
          None \<Rightarrow> Inr (Some [], m)
        | Some v \<Rightarrow> ebind (str_to_list v (Some STR_SEPARATOR))
                      (\<lambda>l. Inr (l, dict_del m MAPPER_NAME_KEY)))
       = Inr (Some (map VStr names), m1)"
    and get1: "\<forall>k. dict_get m1 k = (if k = MAPPER_NAME_KEY then None else dict_get m k)"
    using field_stage [OF names] by blast
  have "(dict_get m1 MAPPER_ID64_KEY = None \<and> ids = []) \<or>
           (\<exists>s. s \<noteq> [] \<and> dict_get m1 MAPPER_ID64_KEY = Some (VStr s) \<and>
                ids = split_sep STR_SEPARATOR [] s)"
    using ids get1 by simp
  then obtain m2 where stage2:
      "(case dict_get m1 MAPPER_ID64_KEY of
          None \<Rightarrow> Inr (Some [], m1)
        | Some v \<Rightarrow> ebind (str_to_list v (Some STR_SEPARATOR))
                      (\<lambda>l. Inr (l, dict_del m1 MAPPER_ID64_KEY)))
       = Inr (Some (map VStr ids), m2)"
    and get2: "\<forall>k. dict_get m2 k = (if k = MAPPER_ID64_KEY then None else dict_get m1 k)"
    using field_stage [of m1 MAPPER_ID64_KEY ids] by blast
  have norm_names: "norm_list (Some (map VStr names)) (Some (int N)) = Some ns"
    using norm_list_pad [of "map VStr names" N] len by (simp add: ns_def)
  have norm_ids: "norm_list (Some (map VStr ids)) (Some (int N)) = Some ds"
    using norm_list_pad [of "map VStr ids" N] len by (simp add: ds_def)
  have maxN: "max (int (length names)) (int (length ids)) = int N"
    by (simp add: N_def)
  let ?ms = "map cr [0..<N]"
  let ?m' = "dict_set m2 MAPPERS_KEY (VList ?ms)"
  have result: "fix_mappers (Some m) = Inr (Some ?m')"
    using \<open>m \<noteq> []\<close>
    by (simp add: fix_mappers_def stage1 stage2 py_len_def maxN norm_names norm_ids loop)
  have credits: "\<forall>i<length ?ms. \<exists>n d.
              ?ms ! i = VDict [(NAME_KEY, n), (ID64_KEY, d)] \<and>
              (if i < length names \<and> names ! i \<noteq> [] \<and> names ! i \<noteq> ''null''
               then n = VStr (names ! i) else n = VNone) \<and>
              (if i < length ids \<and> ids ! i \<noteq> [] \<and> ids ! i \<noteq> ''null''
               then py_int (VStr (ids ! i)) = Inr d else d = VNone)"
  proof (intro allI impI)
    fix i assume "i < length ?ms"
    then have i: "i < N" by simp
    have idv_ok: "py_int (VStr (ids ! i)) = Inr (idv i)"
      if "i < length ids \<and> ids ! i \<noteq> [] \<and> ids ! i \<noteq> ''null''"
    proof -
      from that have "int_of_str (ids ! i) \<noteq> None" using numeric by simp
      then obtain j where "int_of_str (ids ! i) = Some j" by blast
      with that show ?thesis by (simp add: idv_def)
    qed
    show "\<exists>n d. ?ms ! i = VDict [(NAME_KEY, n), (ID64_KEY, d)] \<and>
              (if i < length names \<and> names ! i \<noteq> [] \<and> names ! i \<noteq> ''null''
               then n = VStr (names ! i) else n = VNone) \<and>
              (if i < length ids \<and> ids ! i \<noteq> [] \<and> ids ! i \<noteq> ''null''
               then py_int (VStr (ids ! i)) = Inr d else d = VNone)"
    proof (rule exI [of _ "nm i"], rule exI [of _ "idv i"], intro conjI)
      show "?ms ! i = VDict [(NAME_KEY, nm i), (ID64_KEY, idv i)]"
        using i by (simp add: cr_def)
      show "if i < length names \<and> names ! i \<noteq> [] \<and> names ! i \<noteq> ''null''
            then nm i = VStr (names ! i) else nm i = VNone"
        by (simp add: nm_def)
      show "if i < length ids \<and> ids ! i \<noteq> [] \<and> ids ! i \<noteq> ''null''
            then py_int (VStr (ids ! i)) = Inr (idv i) else idv i = VNone"
        using idv_ok by (simp add: idv_def)
    qed
  qed
  show ?thesis
  proof (rule exI [of _ ?m'], rule exI [of _ ?ms], intro conjI)
    show "fix_mappers (Some m) = Inr (Some ?m')" by (rule result)
    show "dict_get ?m' MAPPER_NAME_KEY = None" using get1 get2 by (simp add: dict_get_set)
    show "dict_get ?m' MAPPER_ID64_KEY = None" using get1 get2 by (simp add: dict_get_set)
    show "dict_get ?m' MAPPERS_KEY = Some (VList ?ms)" by (simp add: dict_get_set)
    show "\<forall>k. k \<noteq> MAPPER_NAME_KEY \<and> k \<noteq> MAPPER_ID64_KEY \<and> k \<noteq> MAPPERS_KEY \<longrightarrow>
                dict_get ?m' k = dict_get m k"
      using get1 get2 by (simp add: dict_get_set)
    show "length ?ms = max (length names) (length ids)" by (simp add: N_def)
    show "\<forall>i<length ?ms. \<exists>n d.
              ?ms ! i = VDict [(NAME_KEY, n), (ID64_KEY, d)] \<and>
              (if i < length names \<and> names ! i \<noteq> [] \<and> names ! i \<noteq> ''null''
               then n = VStr (names ! i) else n = VNone) \<and>
              (if i < length ids \<and> ids ! i \<noteq> [] \<and> ids ! i \<noteq> ''null''
               then py_int (VStr (ids ! i)) = Inr d else d = VNone)"
      by (rule credits)
  qed
qed


theorem fix_mappers_credits_witness:
  "\<exists>m' ms.
     fix_mappers (Some [(MAPPER_NAME_KEY, VStr ''Alice, Bob''), (MAPPER_ID64_KEY, VStr ''7'')]) =
       Inr (Some m') \<and>
     dict_get m' MAPPER_NAME_KEY = None \<and>
     dict_get m' MAPPER_ID64_KEY = None \<and>
     dict_get m' MAPPERS_KEY = Some (VList ms) \<and>
     length ms = 2"
proof -
  let ?m = "[(MAPPER_NAME_KEY, VStr ''Alice, Bob''), (MAPPER_ID64_KEY, VStr ''7'')]"
  have split_names: "split_sep STR_SEPARATOR [] ''Alice, Bob'' = [''Alice'', ''Bob'']"
    by code_simp
  have split_ids: "split_sep STR_SEPARATOR [] ''7'' = [''7'']"
    by code_simp
  have seven: "int_of_str ''7'' = Some 7"
    by code_simp
  have h0: "?m \<noteq> []" by simp
  have h1: "(dict_get ?m MAPPER_NAME_KEY = None \<and> [''Alice'', ''Bob''] = []) \<or>
           (\<exists>s. s \<noteq> [] \<and> dict_get ?m MAPPER_NAME_KEY = Some (VStr s) \<and>
                [''Alice'', ''Bob''] = split_sep STR_SEPARATOR [] s)"
    by (simp add: dict_get_def split_names)
  have h2: "(dict_get ?m MAPPER_ID64_KEY = None \<and> [''7''] = []) \<or>
           (\<exists>s. s \<noteq> [] \<and> dict_get ?m MAPPER_ID64_KEY = Some (VStr s) \<and>
                [''7''] = split_sep STR_SEPARATOR [] s)"
    by (simp add: dict_get_def split_ids)
  have h3: "\<forall>t\<in>set [''7'']. t \<noteq> [] \<and> t \<noteq> ''null'' \<longrightarrow> int_of_str t \<noteq> None"
    by (simp add: seven)
  from fix_mappers_credits [OF h0 h1 h2 h3] obtain m' ms where
    "fix_mappers (Some ?m) = Inr (Some m')" "dict_get m' MAPPER_NAME_KEY = None"
    "dict_get m' MAPPER_ID64_KEY = None" "dict_get m' MAPPERS_KEY = Some (VList ms)"
    "length ms = max (length [''Alice'', ''Bob'']) (length [''7''])"
    by blast
  then show ?thesis by - (rule exI [of _ m'], rule exI [of _ ms], simp)
qed

text \<open>
  C1 as it is stated fails: for \<^verbatim>\<open>mapper_name = "null, Bob"\<close> the list of names has two
  substrings, the first being \<^verbatim>\<open>null\<close>, and the first credit has no name.
\<close>

theorem fix_mappers_null_name:
  "split_sep STR_SEPARATOR [] ''null, Bob'' = [''null'', ''Bob''] \<and>
   fix_mappers (Some [(MAPPER_NAME_KEY, VStr ''null, Bob'')]) =
     Inr (Some [(MAPPERS_KEY,
                 VList [VDict [(NAME_KEY, VNone), (ID64_KEY, VNone)],
                        VDict [(NAME_KEY, VStr ''Bob''), (ID64_KEY, VNone)]])])"
  by code_simp

end
